theory Spec2Isabelle
  imports Main "HOL-Library.Sublist"
begin

section \<open>The command pattern: units, undoable commands, the input handler\<close>

text \<open>
  The first source file declares the enum \<open>Action\<close>, the stateless commands
  \<open>BuyCommand\<close> and \<open>SellCommand\<close>, the undoable \<open>ModifyUnitCommand\<close> over a \<open>Unit\<close>, and
  the \<open>InputHandler\<close> that maps trigger signals to commands.
\<close>

subsection \<open>Numbers\<close>

text \<open>
  A TypeScript \<open>number\<close> is a double. The model has the integer-valued doubles, the two
  infinities and \<open>NaN\<close>: \<open>Num n\<close> stands for the double whose value is the integer \<open>n\<close>,
  for the \<open>n\<close> that are doubles (every integer of magnitude up to \<open>2^53\<close>, and beyond it
  those with at most \<open>53\<close> significant bits). Numbers with a fractional part are left out,
  and no operation below produces one; the sign of zero is not kept. The field \<open>_value\<close>
  of a \<open>Unit\<close> has no initialiser, so that it reads \<open>undefined\<close> until it is assigned.

  The sum and the difference of two doubles are the exact result rounded to the nearest
  double (\<open>round_double\<close>): to \<open>53\<close> significant bits, a tie going to the even
  significand, and to an infinity when the rounded magnitude reaches \<open>2^1024\<close>.
  Arithmetic on \<open>undefined\<close> or \<open>NaN\<close> gives \<open>NaN\<close>, and so do the sum of the two opposite
  infinities and the difference of two equal ones.
\<close>

datatype jsnumber = Undefined | NaN | PosInf | NegInf | Num int

function bitlength :: "int \<Rightarrow> nat" where
  "bitlength n = (if n \<le> 0 then 0 else Suc (bitlength (n div 2)))"
  by pat_completeness auto
termination
  by (relation "measure nat") auto

declare bitlength.simps [simp del]

definition round_double :: "int \<Rightarrow> jsnumber" where
  "round_double n =
     (if \<bar>n\<bar> \<le> 9007199254740992 then Num n
      else
        let a = \<bar>n\<bar>;
            q = 2 ^ (bitlength a - 53);
            lo = a div q;
            r = a mod q;
            m = (if 2 * r < q then lo else if q < 2 * r then lo + 1
                 else if even lo then lo else lo + 1);
            v = m * q
        in if 2 ^ 1024 \<le> v then (if n < 0 then NegInf else PosInf)
           else Num (if n < 0 then - v else v))"

fun js_add :: "jsnumber \<Rightarrow> jsnumber \<Rightarrow> jsnumber" where
  "js_add (Num a) (Num b) = round_double (a + b)"
| "js_add PosInf PosInf = PosInf"
| "js_add PosInf (Num b) = PosInf"
| "js_add (Num a) PosInf = PosInf"
| "js_add NegInf NegInf = NegInf"
| "js_add NegInf (Num b) = NegInf"
| "js_add (Num a) NegInf = NegInf"
| "js_add _ _ = NaN"

fun js_sub :: "jsnumber \<Rightarrow> jsnumber \<Rightarrow> jsnumber" where
  "js_sub (Num a) (Num b) = round_double (a - b)"
| "js_sub PosInf NegInf = PosInf"
| "js_sub PosInf (Num b) = PosInf"
| "js_sub (Num a) NegInf = PosInf"
| "js_sub NegInf PosInf = NegInf"
| "js_sub NegInf (Num b) = NegInf"
| "js_sub (Num a) PosInf = NegInf"
| "js_sub _ _ = NaN"

subsection \<open>Units and the object store\<close>

text \<open>
  A command holds a reference to its \<open>Unit\<close>, and \<open>getSelectedUnit\<close> creates a new object at
  each call, so units live in a store addressed by references. \<open>nextRef\<close> is the first
  reference that \<open>new Unit()\<close> has not handed out yet.
\<close>

type_synonym ref = nat

record Unit =
  val :: jsnumber

record store =
  units :: "ref \<Rightarrow> Unit"
  nextRef :: ref

text \<open>\<open>moveTo(value) { this._value += value; }\<close>, with the getter and the setter of \<open>value\<close>.\<close>

definition moveTo :: "jsnumber \<Rightarrow> Unit \<Rightarrow> Unit" where
  "moveTo v u = u\<lparr>val := js_add (val u) v\<rparr>"

definition get_value :: "Unit \<Rightarrow> jsnumber" where
  "get_value u = val u"

definition set_value :: "jsnumber \<Rightarrow> Unit \<Rightarrow> Unit" where
  "set_value v u = u\<lparr>val := v\<rparr>"

text \<open>The same three operations through a reference.\<close>

definition unit_moveTo :: "ref \<Rightarrow> jsnumber \<Rightarrow> store \<Rightarrow> store" where
  "unit_moveTo r v s = s\<lparr>units := (units s)(r := moveTo v (units s r))\<rparr>"

definition unit_value :: "ref \<Rightarrow> store \<Rightarrow> jsnumber" where
  "unit_value r s = get_value (units s r)"

definition unit_set_value :: "ref \<Rightarrow> jsnumber \<Rightarrow> store \<Rightarrow> store" where
  "unit_set_value r v s = s\<lparr>units := (units s)(r := set_value v (units s r))\<rparr>"

text \<open>\<open>new Unit()\<close>: a fresh object whose \<open>_value\<close> is still \<open>undefined\<close>.\<close>

definition new_Unit :: "store \<Rightarrow> ref \<times> store" where
  "new_Unit s =
     (nextRef s,
      s\<lparr>units := (units s)(nextRef s := \<lparr>val = Undefined\<rparr>), nextRef := Suc (nextRef s)\<rparr>)"

subsection \<open>The undoable command\<close>

text \<open>
  \<open>ModifyUnitCommand\<close> has three private fields, all set by the constructor: the unit, the
  value to apply (the field \<open>value\<close> of the source, here \<open>newValue\<close>) and the previous
  value. \<open>execute\<close> overwrites \<open>prevValue\<close> with the unit's current value and then calls
  \<open>moveTo(this.value)\<close>; \<open>undo\<close> calls \<open>moveTo(this.prevValue)\<close>. Neither method has a
  \<open>throw\<close>, and neither keeps track of whether \<open>execute\<close> has run. Both return the command
  (whose \<open>prevValue\<close> may have changed) and the store.
\<close>

record ModifyUnitCommand =
  unit :: ref
  newValue :: jsnumber
  prevValue :: jsnumber

definition execute :: "ModifyUnitCommand \<Rightarrow> store \<Rightarrow> ModifyUnitCommand \<times> store" where
  "execute c s =
     (let c' = c\<lparr>prevValue := unit_value (unit c) s\<rparr>
      in (c', unit_moveTo (unit c') (newValue c') s))"

definition undo :: "ModifyUnitCommand \<Rightarrow> store \<Rightarrow> ModifyUnitCommand \<times> store" where
  "undo c s = (c, unit_moveTo (unit c) (prevValue c) s)"

text \<open>A store in which the unit at reference \<open>0\<close> holds the number \<open>v\<close>.\<close>

definition store_with :: "int \<Rightarrow> store" where
  "store_with v = \<lparr>units = (\<lambda>_. \<lparr>val = Num v\<rparr>), nextRef = 1\<rparr>"

subsection \<open>The stateless commands and the input handler\<close>

datatype Action = BUY_ACTION | SELL_ACTION

datatype SimpleCommand = BuyCommand | SellCommand

text \<open>
  \<open>Actor.buy\<close> and \<open>Actor.sell\<close> print one line each; the console is the list of the lines
  printed so far.
\<close>

fun execute_simple :: "SimpleCommand \<Rightarrow> string list \<Rightarrow> string list" where
  "execute_simple BuyCommand console = console @ [''buy'']"
| "execute_simple SellCommand console = console @ [''sell'']"

text \<open>
  The handler reads two free functions of the file, \<open>isTriggered\<close> and \<open>getSelectedUnit\<close>;
  the file's own bodies are stubs (\<open>return true\<close> and \<open>return new Unit()\<close>). The handler is
  modelled over any trigger predicate and any resolver, the two stubs being one instance.
\<close>

definition isTriggered :: "Action \<Rightarrow> bool" where
  "isTriggered a = True"

definition getSelectedUnit :: "store \<Rightarrow> ref \<times> store" where
  "getSelectedUnit s = new_Unit s"

record InputHandler =
  buyCommand :: SimpleCommand
  sellCommand :: SimpleCommand
  selectedUnit :: "ref option"

definition new_InputHandler :: InputHandler where
  "new_InputHandler = \<lparr>buyCommand = BuyCommand, sellCommand = SellCommand, selectedUnit = None\<rparr>"

definition handleInput :: "(Action \<Rightarrow> bool) \<Rightarrow> InputHandler \<Rightarrow> SimpleCommand option" where
  "handleInput trig ih =
     (if trig BUY_ACTION then Some (buyCommand ih)
      else if trig SELL_ACTION then Some (sellCommand ih)
      else None)"

definition handleUnitInput ::
  "(Action \<Rightarrow> bool) \<Rightarrow> (store \<Rightarrow> ref \<times> store) \<Rightarrow> InputHandler \<Rightarrow> store
     \<Rightarrow> ModifyUnitCommand option \<times> InputHandler \<times> store" where
  "handleUnitInput trig resolve ih s =
     (let (r, s') = resolve s;
          ih' = ih\<lparr>selectedUnit := Some r\<rparr>
      in if trig BUY_ACTION then
           (Some \<lparr>unit = r, newValue = js_add (unit_value r s') (Num 1),
                   prevValue = unit_value r s'\<rparr>, ih', s')
         else if trig SELL_ACTION then
           (Some \<lparr>unit = r, newValue = js_sub (unit_value r s') (Num 1),
                   prevValue = unit_value r s'\<rparr>, ih', s')
         else (None, ih', s'))"

text \<open>
  The specification's reading of a poll, to compare the handler with: the triggers in
  their priority order, and the first one of them that fired.
\<close>

definition spec_priority :: "Action list" where
  "spec_priority = [BUY_ACTION, SELL_ACTION]"

definition spec_first_fired :: "(Action \<Rightarrow> bool) \<Rightarrow> Action option" where
  "spec_first_fired trig = find trig spec_priority"

section \<open>The observer pattern: event manager, editor, listeners\<close>

subsection \<open>The event manager\<close>

text \<open>
  Listeners are objects, compared by reference (\<open>l !== listener\<close>): a listener is the
  reference of its object. The private field \<open>listeners\<close> is a \<open>Map\<close> from event types to
  arrays. No method changes an array in place: \<open>subscribe\<close> stores a new array made by
  spreading the old one, \<open>unsubscribe\<close> stores the result of \<open>filter\<close>. An array that was
  read from the map therefore never changes, and arrays are modelled as lists.
\<close>

type_synonym Listener = nat

record EventManager =
  listeners :: "string \<rightharpoonup> Listener list"

definition new_EventManager :: EventManager where
  "new_EventManager = \<lparr>listeners = Map.empty\<rparr>"

text \<open>\<open>this.listeners.get(eventType) || []\<close> (and \<open>?? []\<close>: an array is never falsy).\<close>

definition registered :: "EventManager \<Rightarrow> string \<Rightarrow> Listener list" where
  "registered em eventType = (case listeners em eventType of None \<Rightarrow> [] | Some ls \<Rightarrow> ls)"

definition subscribe :: "string \<Rightarrow> Listener \<Rightarrow> EventManager \<Rightarrow> EventManager" where
  "subscribe eventType listener em =
     (let eventListeners = registered em eventType
      in em\<lparr>listeners := (listeners em)(eventType \<mapsto> eventListeners @ [listener])\<rparr>)"

definition unsubscribe :: "string \<Rightarrow> Listener \<Rightarrow> EventManager \<Rightarrow> EventManager" where
  "unsubscribe eventType listener em =
     (let eventListeners = registered em eventType
      in em\<lparr>listeners := (listeners em)(eventType \<mapsto> filter (\<lambda>l. l \<noteq> listener) eventListeners)\<rparr>)"

subsection \<open>The program state seen by a listener\<close>

text \<open>
  \<open>Path\<close>, \<open>File\<close> and \<open>System\<close> come from a module that the repository only declares. A
  \<open>File\<close> is its \<open>name\<close>; what \<open>write\<close> does is a parameter (\<open>fwrite\<close>) of \<open>saveFile\<close>, acting on
  the environment \<open>env\<close> (the file system, the mail system, the fields of the listeners).
  The editor owns the event manager and the current file (the field \<open>file\<close> of the source,
  here \<open>efile\<close>), \<open>undefined\<close> until \<open>openFile\<close>.
\<close>

record Path =
  path :: string

record File =
  name :: Path

record Editor =
  events :: EventManager
  efile :: "File option"

definition new_Editor :: Editor where
  "new_Editor = \<lparr>events = new_EventManager, efile = None\<rparr>"

record 'x world =
  editor :: Editor
  env :: 'x

datatype error = TypeError | Raised string

text \<open>
  \<open>update\<close> is the code of the listeners: what the listener at a reference does to the
  program state when it receives a payload. It may do anything to the state, the event
  manager included, and it may throw.
\<close>

type_synonym ('d, 'x) update = "Listener \<Rightarrow> 'd \<Rightarrow> 'x world \<Rightarrow> error + 'x world"

text \<open>One call of \<open>update\<close>: the listener, the payload and the state it was called in.\<close>

record ('d, 'x) call =
  callee :: Listener
  payload :: 'd
  seen :: "'x world"

text \<open>
  The loop of \<open>notify\<close> over the array read from the map. It returns the calls made, in
  order, and the outcome: the final state, or the exception of the first listener that
  threw, which ends the loop.
\<close>

fun dispatch ::
  "('d, 'x) update \<Rightarrow> Listener list \<Rightarrow> 'd \<Rightarrow> 'x world
     \<Rightarrow> ('d, 'x) call list \<times> (error + 'x world)" where
  "dispatch upd [] d w = ([], Inr w)"
| "dispatch upd (l # ls) d w =
     (case upd l d w of
        Inl e \<Rightarrow> ([\<lparr>callee = l, payload = d, seen = w\<rparr>], Inl e)
      | Inr w' \<Rightarrow>
          (case dispatch upd ls d w' of
             (cs, r) \<Rightarrow> (\<lparr>callee = l, payload = d, seen = w\<rparr> # cs, r)))"

definition notify ::
  "('d, 'x) update \<Rightarrow> string \<Rightarrow> 'd \<Rightarrow> 'x world \<Rightarrow> ('d, 'x) call list \<times> (error + 'x world)" where
  "notify upd eventType d w = dispatch upd (registered (events (editor w)) eventType) d w"

text \<open>A call returned normally: its outcome is a state, not an exception.\<close>

definition returned :: "error + 'a \<Rightarrow> bool" where
  "returned r = (case r of Inl e \<Rightarrow> False | Inr x \<Rightarrow> True)"

text \<open>
  The specification's reading of a pass, to compare \<open>notify\<close> with: the \<open>update\<close> of each
  listener of the sequence applied in order, each to the state the one before left, up to
  the first exception.
\<close>

definition then_update ::
  "('d, 'x) update \<Rightarrow> 'd \<Rightarrow> error + 'x world \<Rightarrow> Listener \<Rightarrow> error + 'x world" where
  "then_update upd d r l = (case r of Inl e \<Rightarrow> Inl e | Inr s \<Rightarrow> upd l d s)"

definition spec_updates_in_order ::
  "('d, 'x) update \<Rightarrow> Listener list \<Rightarrow> 'd \<Rightarrow> 'x world \<Rightarrow> error + 'x world" where
  "spec_updates_in_order upd ls d w = foldl (then_update upd d) (Inr w) ls"

text \<open>\<open>subscribe\<close> and \<open>unsubscribe\<close> on the editor's event manager, as a listener calls them.\<close>

definition events_subscribe :: "string \<Rightarrow> Listener \<Rightarrow> 'x world \<Rightarrow> 'x world" where
  "events_subscribe eventType listener w =
     w\<lparr>editor := (editor w)\<lparr>events := subscribe eventType listener (events (editor w))\<rparr>\<rparr>"

definition events_unsubscribe :: "string \<Rightarrow> Listener \<Rightarrow> 'x world \<Rightarrow> 'x world" where
  "events_unsubscribe eventType listener w =
     w\<lparr>editor := (editor w)\<lparr>events := unsubscribe eventType listener (events (editor w))\<rparr>\<rparr>"

subsection \<open>The editor\<close>

text \<open>
  \<open>openFile\<close> assigns \<open>this.file = new File(path)\<close> (\<open>assign_file\<close>) and then notifies
  \<open>"open"\<close> with \<open>this.file.name\<close>. \<open>saveFile\<close> calls \<open>this.file.write()\<close> and then notifies \<open>"save"\<close>; reading \<open>write\<close> from an
  undefined \<open>this.file\<close> (no \<open>openFile\<close> before) is a \<open>TypeError\<close>, and an exception of
  \<open>write\<close> leaves the method before \<open>notify\<close>.
\<close>

definition assign_file :: "Path \<Rightarrow> 'x world \<Rightarrow> 'x world" where
  "assign_file p w = w\<lparr>editor := (editor w)\<lparr>efile := Some \<lparr>name = p\<rparr>\<rparr>\<rparr>"

definition openFile ::
  "(Path, 'x) update \<Rightarrow> Path \<Rightarrow> 'x world \<Rightarrow> (Path, 'x) call list \<times> (error + 'x world)" where
  "openFile upd p w =
     (let w' = assign_file p w
      in case efile (editor w') of
           None \<Rightarrow> ([], Inl TypeError)
         | Some f \<Rightarrow> notify upd ''open'' (name f) w')"

definition saveFile ::
  "(Path, 'x) update \<Rightarrow> (File \<Rightarrow> 'x \<Rightarrow> error + 'x) \<Rightarrow> 'x world
     \<Rightarrow> (Path, 'x) call list \<times> (error + 'x world)" where
  "saveFile upd fwrite w =
     (case efile (editor w) of
        None \<Rightarrow> ([], Inl TypeError)
      | Some f \<Rightarrow>
          (case fwrite f (env w) of
             Inl e \<Rightarrow> ([], Inl e)
           | Inr x \<Rightarrow> notify upd ''save'' (name f) (w\<lparr>env := x\<rparr>)))"

subsection \<open>Listeners used as examples\<close>

text \<open>
  The environment of the examples is a log of lines. \<open>quiet\<close> listeners append the path they
  receive to the log, whatever their reference: any two of them are equal in structure and
  differ by reference only. Under \<open>recruiting k new\<close>, the listener at reference \<open>1\<close> also
  subscribes the listener \<open>new\<close> to \<open>k\<close> from inside its \<open>update\<close>. Under \<open>failing\<close>, the
  listener at reference \<open>1\<close> throws.
\<close>

definition quiet :: "(Path, string list) update" where
  "quiet l d w = Inr (w\<lparr>env := env w @ [path d]\<rparr>)"

definition recruiting :: "string \<Rightarrow> Listener \<Rightarrow> (Path, string list) update" where
  "recruiting k new l d w =
     (if l = 1 then Inr (events_subscribe k new (w\<lparr>env := env w @ [path d]\<rparr>))
      else quiet l d w)"

definition failing :: "(Path, string list) update" where
  "failing l d w = (if l = 1 then Inl (Raised ''update failed'') else quiet l d w)"

text \<open>
  \<open>recording\<close> listeners append their own reference to the environment, here a list of
  references: the environment then tells which updates ran, and in which order.
\<close>

definition recording :: "('d, Listener list) update" where
  "recording l d w = Inr (w\<lparr>env := env w @ [l]\<rparr>)"

definition world_of :: "EventManager \<Rightarrow> 'x \<Rightarrow> 'x world" where
  "world_of em x = \<lparr>editor = \<lparr>events = em, efile = None\<rparr>, env = x\<rparr>"

definition log_write :: "File \<Rightarrow> string list \<Rightarrow> error + string list" where
  "log_write f x = Inr (x @ [''write '' @ path (name f)])"

definition world_with :: "EventManager \<Rightarrow> string list world" where
  "world_with em = \<lparr>editor = \<lparr>events = em, efile = None\<rparr>, env = []\<rparr>"

section \<open>Properties of the commands\<close>

lemmas command_defs =
  execute_def undo_def unit_moveTo_def unit_value_def moveTo_def get_value_def round_double_def

text \<open>
  Rounding at work: \<open>2^53 + 1\<close> is no double and the sum goes to \<open>2^53\<close>; the tie between
  \<open>2^53 + 2\<close> and \<open>2^53 + 4\<close> goes to the even significand; the largest double plus half
  its last place is infinite.
\<close>

lemma js_add_rounds:
  "js_add (Num 9007199254740992) (Num 1) = Num 9007199254740992
   \<and> js_sub (Num (- 9007199254740992)) (Num 1) = Num (- 9007199254740992)
   \<and> js_add (Num 9007199254740994) (Num 1) = Num 9007199254740996
   \<and> js_add (Num (2 ^ 1024 - 2 ^ 971)) (Num (2 ^ 970)) = PosInf"
  by code_simp

text \<open>
  Claim C1 (undo exactness): for a unit holding \<open>v0\<close>, executing a \<open>ModifyUnitCommand\<close> with
  new value \<open>v1\<close> and then calling \<open>undo\<close> should restore the unit's value to \<open>v0\<close>. The code
  does not do so. \<open>execute\<close> adds the new value to the unit's value, and \<open>undo\<close> adds the
  recorded previous value on top of that: the unit ends at its old value, plus the new
  value, plus its old value again. From \<open>5\<close> with new value \<open>6\<close> it ends at \<open>16\<close>.
\<close>

theorem execute_then_undo_adds_twice:
  "unit_value (unit c) (snd (undo (fst (execute c s)) (snd (execute c s))))
     = js_add (js_add (unit_value (unit c) s) (newValue c)) (unit_value (unit c) s)
   \<and> unit_value 0 (store_with 5) = Num 5
   \<and> unit_value 0
        (snd (undo (fst (execute \<lparr>unit = 0, newValue = Num 6, prevValue = Num 0\<rparr> (store_with 5)))
                   (snd (execute \<lparr>unit = 0, newValue = Num 6, prevValue = Num 0\<rparr> (store_with 5)))))
       = Num 16"
  by (simp add: command_defs Let_def store_with_def)

text \<open>
  Claim C2 (scenario): the unit starts at \<open>5\<close>; \<open>ModifyUnitCommand(unit, 6, 5).execute()\<close>
  leaves it at \<open>11\<close>, and \<open>undo()\<close> should leave it at \<open>5\<close>. In the code the first half holds
  and the second does not: \<open>undo()\<close> leaves the unit at \<open>16\<close>.
\<close>

theorem scenario_5_6_execute_undo:
  "unit_value 0 (store_with 5) = Num 5
   \<and> unit_value 0 (snd (execute \<lparr>unit = 0, newValue = Num 6, prevValue = Num 5\<rparr> (store_with 5)))
       = Num 11
   \<and> unit_value 0
        (snd (undo (fst (execute \<lparr>unit = 0, newValue = Num 6, prevValue = Num 5\<rparr> (store_with 5)))
                   (snd (execute \<lparr>unit = 0, newValue = Num 6, prevValue = Num 5\<rparr> (store_with 5)))))
       = Num 16"
  by (simp add: command_defs Let_def store_with_def)

text \<open>
  Claim C3: immediately after \<open>execute()\<close>, the command's stored previous value equals the
  unit's value as it was immediately before that call, for every command (whatever
  previous value its constructor was given) and every store. The command still refers to
  the same unit and carries the same new value.
\<close>

theorem execute_records_previous_value:
  "prevValue (fst (execute c s)) = unit_value (unit c) s
   \<and> unit (fst (execute c s)) = unit c
   \<and> newValue (fst (execute c s)) = newValue c"
  by (simp add: execute_def Let_def)

text \<open>
  Claim C6: calling \<open>undo()\<close> on a command that was never executed should signal an
  invalid-state error, and neither do nothing silently nor change the unit silently. The
  code has no such error and no record of whether \<open>execute\<close> has run. On a fresh command
  over a unit holding \<open>5\<close>, built with previous value \<open>5\<close>, \<open>undo()\<close> returns normally, with
  the command as it was and the unit changed to \<open>10\<close>.
\<close>

theorem undo_before_execute_changes_unit:
  "undo \<lparr>unit = 0, newValue = Num 6, prevValue = Num 5\<rparr> (store_with 5)
     = (\<lparr>unit = 0, newValue = Num 6, prevValue = Num 5\<rparr>,
        unit_set_value 0 (Num 10) (store_with 5))
   \<and> unit_value 0 (store_with 5) = Num 5
   \<and> unit_value 0 (unit_set_value 0 (Num 10) (store_with 5)) = Num 10"
  by (simp add: command_defs store_with_def unit_set_value_def set_value_def)

text \<open>
  Claim C6 as amended: \<open>undo()\<close> signals no error, executed or not. It returns normally and
  leaves the command unchanged; it calls \<open>moveTo\<close> on the command's unit with the stored
  previous value (the constructor's, if \<open>execute\<close> never ran), and it changes no other unit
  and creates none.
\<close>

theorem undo_never_fails:
  "fst (undo c s) = c
   \<and> units (snd (undo c s)) (unit c) = moveTo (prevValue c) (units s (unit c))
   \<and> (\<forall>r. r \<noteq> unit c \<longrightarrow> units (snd (undo c s)) r = units s r)
   \<and> nextRef (snd (undo c s)) = nextRef s"
  by (simp add: undo_def unit_moveTo_def)

theorem undo_never_fails_witness:
  "(1::nat) \<noteq> 0
   \<and> fst (undo \<lparr>unit = 0, newValue = Num 6, prevValue = Num 5\<rparr> (store_with 5))
       = \<lparr>unit = 0, newValue = Num 6, prevValue = Num 5\<rparr>
   \<and> units (snd (undo \<lparr>unit = 0, newValue = Num 6, prevValue = Num 5\<rparr> (store_with 5))) 1
       = units (store_with 5) 1"
  using undo_never_fails [of "\<lparr>unit = 0, newValue = Num 6, prevValue = Num 5\<rparr>" "store_with 5"]
  by simp

text \<open>
  Claim C8: for every state of the trigger predicate, a poll checks the triggers in the
  fixed order \<open>BUY\<close> before \<open>SELL\<close> and returns the command of the first trigger that fired,
  or nothing if none fired. \<open>handleUnitInput\<close> resolves the selected unit exactly once,
  before it builds a command: the store it leaves is the store after one call of the
  resolver, the unit it remembers and the unit of the command it builds are the one that
  call returned, and the command's values are computed from that unit. With the file's own
  resolver, which creates a unit, exactly one unit is created per poll.
\<close>

theorem poll_priority_and_single_resolution:
  "handleInput trig ih =
     map_option (\<lambda>a. case a of BUY_ACTION \<Rightarrow> buyCommand ih | SELL_ACTION \<Rightarrow> sellCommand ih)
       (spec_first_fired trig)
   \<and> snd (handleUnitInput trig resolve ih s)
       = (ih\<lparr>selectedUnit := Some (fst (resolve s))\<rparr>, snd (resolve s))
   \<and> fst (handleUnitInput trig resolve ih s) =
       map_option
         (\<lambda>a. \<lparr>unit = fst (resolve s),
                newValue = (case a of
                    BUY_ACTION \<Rightarrow> js_add (unit_value (fst (resolve s)) (snd (resolve s))) (Num 1)
                  | SELL_ACTION \<Rightarrow> js_sub (unit_value (fst (resolve s)) (snd (resolve s))) (Num 1)),
                prevValue = unit_value (fst (resolve s)) (snd (resolve s))\<rparr>)
         (spec_first_fired trig)
   \<and> nextRef (snd (snd (handleUnitInput trig getSelectedUnit ih s))) = Suc (nextRef s)
   \<and> selectedUnit (fst (snd (handleUnitInput trig getSelectedUnit ih s))) = Some (nextRef s)"
  by (simp add: handleInput_def handleUnitInput_def Let_def spec_first_fired_def
      spec_priority_def getSelectedUnit_def new_Unit_def split: prod.splits)

text \<open>
  With the file's own stubs every trigger fires and the selected unit is a new one, whose
  value is still \<open>undefined\<close>: the poll returns the buy command, and the unit command it
  builds carries \<open>NaN\<close> as its new value.
\<close>

lemma poll_with_the_stubs:
  "handleInput isTriggered new_InputHandler = Some BuyCommand
   \<and> fst (handleUnitInput isTriggered getSelectedUnit new_InputHandler (store_with 5))
       = Some \<lparr>unit = 1, newValue = NaN, prevValue = Undefined\<rparr>"
  by (simp add: handleInput_def handleUnitInput_def isTriggered_def getSelectedUnit_def
      new_Unit_def new_InputHandler_def store_with_def unit_value_def get_value_def)

section \<open>Properties of the event manager and the editor\<close>

subsection \<open>The sequences of the registry\<close>

lemma registered_new_EventManager: "registered new_EventManager k = []"
  by (simp add: registered_def new_EventManager_def)

lemma registered_world_with: "registered (events (editor (world_with em))) k = registered em k"
  by (simp add: world_with_def)

lemma registered_subscribe:
  "registered (subscribe k l em) k' = (if k' = k then registered em k @ [l] else registered em k')"
  by (simp add: subscribe_def registered_def Let_def)

lemma registered_unsubscribe:
  "registered (unsubscribe k l em) k' =
     (if k' = k then filter (\<lambda>x. x \<noteq> l) (registered em k) else registered em k')"
  by (simp add: unsubscribe_def registered_def Let_def)

lemma registered_events_subscribe:
  "registered (events (editor (events_subscribe k l w))) k' =
     (if k' = k then registered (events (editor w)) k @ [l] else registered (events (editor w)) k')"
  by (simp add: events_subscribe_def registered_subscribe)

lemma registered_events_unsubscribe:
  "registered (events (editor (events_unsubscribe k l w))) k' =
     (if k' = k then filter (\<lambda>x. x \<noteq> l) (registered (events (editor w)) k)
      else registered (events (editor w)) k')"
  by (simp add: events_unsubscribe_def registered_unsubscribe)

lemma registered_events_subscribe_all:
  "registered (events (editor (foldl (\<lambda>w l. events_subscribe k l w) w ls))) k
     = registered (events (editor w)) k @ ls"
  by (induction ls arbitrary: w) (simp_all add: registered_events_subscribe)

lemma registered_assign_file:
  "registered (events (editor (assign_file p w))) k = registered (events (editor w)) k"
  by (simp add: assign_file_def)

lemmas registered_simps =
  registered_new_EventManager registered_world_with registered_subscribe registered_unsubscribe
  registered_events_subscribe registered_events_unsubscribe registered_assign_file

lemma count_list_filter_neq:
  "y \<noteq> x \<Longrightarrow> count_list (filter (\<lambda>l. l \<noteq> x) xs) y = count_list xs y"
  by (induction xs) auto

subsection \<open>The calls of one pass\<close>

lemma returned_iff: "returned r \<longleftrightarrow> (\<exists>x. r = Inr x)"
  by (cases r) (simp_all add: returned_def)

lemma fst_dispatch_Cons:
  "fst (dispatch upd (l # ls) d w) =
     \<lparr>callee = l, payload = d, seen = w\<rparr> #
       (case upd l d w of Inl e \<Rightarrow> [] | Inr w' \<Rightarrow> fst (dispatch upd ls d w'))"
  by (simp split: sum.splits prod.splits)

lemma snd_dispatch_Cons:
  "snd (dispatch upd (l # ls) d w) =
     (case upd l d w of Inl e \<Rightarrow> Inl e | Inr w' \<Rightarrow> snd (dispatch upd ls d w'))"
  by (simp split: sum.splits prod.splits)

text \<open>The listeners called are an initial part of the array, in its order.\<close>

lemma dispatch_callees_prefix:
  "prefix (map callee (fst (dispatch upd ls d w))) ls"
proof (induction ls arbitrary: w)
  case Nil
  show ?case by simp
next
  case (Cons l ls)
  show ?case
    by (cases "upd l d w") (simp_all add: fst_dispatch_Cons Cons.IH del: dispatch.simps)
qed

text \<open>When no listener throws, they are the whole array.\<close>

lemma dispatch_callees_returned:
  "returned (snd (dispatch upd ls d w)) \<Longrightarrow> map callee (fst (dispatch upd ls d w)) = ls"
proof (induction ls arbitrary: w)
  case Nil
  show ?case by simp
next
  case (Cons l ls)
  then show ?case
    by (cases "upd l d w")
      (simp_all add: fst_dispatch_Cons snd_dispatch_Cons returned_def del: dispatch.simps)
qed

lemma dispatch_returned:
  assumes "\<And>l s. returned (upd l d s)"
  shows "returned (snd (dispatch upd ls d w))"
proof (induction ls arbitrary: w)
  case Nil
  show ?case by (simp add: returned_def)
next
  case (Cons l ls)
  from assms [of l w] obtain w' where "upd l d w = Inr w'"
    by (auto simp add: returned_iff)
  with Cons.IH show ?case
    by (simp add: snd_dispatch_Cons del: dispatch.simps)
qed

lemma dispatch_all_payload:
  "list_all (\<lambda>c. payload c = d) (fst (dispatch upd ls d w))"
proof (induction ls arbitrary: w)
  case Nil
  show ?case by simp
next
  case (Cons l ls)
  then show ?case
    by (cases "upd l d w") (simp_all add: fst_dispatch_Cons del: dispatch.simps)
qed

lemma dispatch_seen_first:
  "map seen (take 1 (fst (dispatch upd ls d w))) = (if ls = [] then [] else [w])"
proof (cases ls)
  case Nil
  then show ?thesis by simp
next
  case (Cons l ls')
  then show ?thesis by (simp add: fst_dispatch_Cons del: dispatch.simps)
qed

text \<open>A property of the state that every listener keeps is seen by every listener.\<close>

lemma dispatch_seen_invariant:
  assumes "\<And>l s s'. P s \<Longrightarrow> upd l d s = Inr s' \<Longrightarrow> P s'"
  shows "P w \<Longrightarrow> list_all (\<lambda>c. P (seen c)) (fst (dispatch upd ls d w))"
proof (induction ls arbitrary: w)
  case Nil
  show ?case by simp
next
  case (Cons l ls)
  show ?case
  proof (cases "upd l d w")
    case (Inl e)
    with Cons.prems show ?thesis
      by (simp add: fst_dispatch_Cons del: dispatch.simps)
  next
    case (Inr w')
    with Cons.prems assms have "P w'" by blast
    with Cons.IH Cons.prems Inr show ?thesis
      by (simp add: fst_dispatch_Cons del: dispatch.simps)
  qed
qed

lemma notify_callees_prefix:
  "prefix (map callee (fst (notify upd k d w))) (registered (events (editor w)) k)"
  by (simp add: notify_def dispatch_callees_prefix)

lemma notify_callees_subset:
  "callee ` set (fst (notify upd k d w)) \<subseteq> set (registered (events (editor w)) k)"
  using set_mono_prefix [OF notify_callees_prefix [of upd k d w]] by simp

lemma notify_callees_returned:
  "returned (snd (notify upd k d w)) \<Longrightarrow>
   map callee (fst (notify upd k d w)) = registered (events (editor w)) k"
  by (simp add: notify_def dispatch_callees_returned)

lemma notify_all_payload:
  "list_all (\<lambda>c. payload c = d) (fst (notify upd k d w))"
  by (simp add: notify_def dispatch_all_payload)

lemma notify_seen_first:
  "map seen (take 1 (fst (notify upd k d w)))
     = (if registered (events (editor w)) k = [] then [] else [w])"
  by (simp only: notify_def dispatch_seen_first)

lemma notify_seen_invariant:
  assumes "\<And>l s s'. P s \<Longrightarrow> upd l d s = Inr s' \<Longrightarrow> P s'" and "P w"
  shows "list_all (\<lambda>c. P (seen c)) (fst (notify upd k d w))"
  unfolding notify_def using assms by (rule dispatch_seen_invariant)

text \<open>The outcome of a pass is the updates applied in order.\<close>

lemma registered_world_of: "registered (events (editor (world_of em x))) k = registered em k"
  by (simp add: world_of_def)

lemma foldl_then_update_Inl: "foldl (then_update upd d) (Inl e) ls = Inl e"
  by (induction ls) (simp_all add: then_update_def)

lemma spec_updates_in_order_Nil: "spec_updates_in_order upd [] d w = Inr w"
  by (simp add: spec_updates_in_order_def)

lemma spec_updates_in_order_Cons:
  "spec_updates_in_order upd (l # ls) d w =
     (case upd l d w of Inl e \<Rightarrow> Inl e | Inr w' \<Rightarrow> spec_updates_in_order upd ls d w')"
  by (cases "upd l d w")
    (simp_all add: spec_updates_in_order_def then_update_def foldl_then_update_Inl)

lemma snd_dispatch_spec:
  "snd (dispatch upd ls d w) = spec_updates_in_order upd ls d w"
proof (induction ls arbitrary: w)
  case Nil
  show ?case by (simp add: spec_updates_in_order_Nil)
next
  case (Cons l ls)
  show ?case
    by (cases "upd l d w")
      (simp_all add: snd_dispatch_Cons spec_updates_in_order_Cons Cons.IH del: dispatch.simps)
qed

lemma dispatch_nth:
  "i < length (fst (dispatch upd ls d w)) \<Longrightarrow>
     callee (fst (dispatch upd ls d w) ! i) = ls ! i
     \<and> payload (fst (dispatch upd ls d w) ! i) = d
     \<and> spec_updates_in_order upd (take i ls) d w = Inr (seen (fst (dispatch upd ls d w) ! i))"
proof (induction ls arbitrary: i w)
  case Nil
  then show ?case by simp
next
  case (Cons l ls)
  show ?case
  proof (cases i)
    case 0
    then show ?thesis
      by (simp add: fst_dispatch_Cons spec_updates_in_order_Nil del: dispatch.simps)
  next
    case (Suc j)
    show ?thesis
    proof (cases "upd l d w")
      case (Inl e)
      with Cons.prems Suc show ?thesis
        by (simp add: fst_dispatch_Cons del: dispatch.simps)
    next
      case (Inr w')
      with Cons.prems Suc have "j < length (fst (dispatch upd ls d w'))"
        by (simp add: fst_dispatch_Cons del: dispatch.simps)
      from Cons.IH [OF this] Inr Suc show ?thesis
        by (simp add: fst_dispatch_Cons spec_updates_in_order_Cons del: dispatch.simps)
    qed
  qed
qed

lemma notify_nth:
  "i < length (fst (notify upd k d w)) \<Longrightarrow>
     callee (fst (notify upd k d w) ! i) = registered (events (editor w)) k ! i
     \<and> payload (fst (notify upd k d w) ! i) = d
     \<and> spec_updates_in_order upd (take i (registered (events (editor w)) k)) d w
         = Inr (seen (fst (notify upd k d w) ! i))"
  unfolding notify_def by (rule dispatch_nth)

lemma snd_notify_spec:
  "snd (notify upd k d w) = spec_updates_in_order upd (registered (events (editor w)) k) d w"
  by (simp add: notify_def snd_dispatch_spec)

lemma spec_final_invariant:
  assumes "\<And>l s s'. P s \<Longrightarrow> upd l d s = Inr s' \<Longrightarrow> P s'"
  shows "P w \<Longrightarrow> spec_updates_in_order upd ls d w = Inr w' \<Longrightarrow> P w'"
proof (induction ls arbitrary: w)
  case Nil
  then show ?case by (simp add: spec_updates_in_order_Nil)
next
  case (Cons l ls)
  from Cons.prems(2) obtain w1 where u: "upd l d w = Inr w1"
    and r: "spec_updates_in_order upd ls d w1 = Inr w'"
    by (auto simp add: spec_updates_in_order_Cons split: sum.splits)
  from assms [OF Cons.prems(1) u] have "P w1" .
  from Cons.IH [OF this r] show ?case .
qed

lemma spec_establishes:
  assumes keep: "\<And>l s s'. P s \<Longrightarrow> upd l d s = Inr s' \<Longrightarrow> P s'"
    and make: "\<And>s s'. upd L1 d s = Inr s' \<Longrightarrow> P s'"
  shows "L1 \<in> set ls \<Longrightarrow> spec_updates_in_order upd ls d w = Inr w' \<Longrightarrow> P w'"
proof (induction ls arbitrary: w)
  case Nil
  then show ?case by simp
next
  case (Cons l ls)
  from Cons.prems(2) obtain w1 where u: "upd l d w = Inr w1"
    and r: "spec_updates_in_order upd ls d w1 = Inr w'"
    by (auto simp add: spec_updates_in_order_Cons split: sum.splits)
  show ?case
  proof (cases "l = L1")
    case True
    with u make have "P w1" by blast
    from spec_final_invariant [of P upd d, OF keep this r] show ?thesis .
  next
    case False
    with Cons.prems(1) have "L1 \<in> set ls" by simp
    from Cons.IH [OF this r] show ?thesis .
  qed
qed

lemma recording_returned: "returned (recording l d s)"
  by (simp add: recording_def returned_def)

lemma recruiting_subscribes:
  "recruiting k new 1 d s = Inr s' \<Longrightarrow> new \<in> set (registered (events (editor s')) k)"
  by (auto simp add: recruiting_def registered_events_subscribe)

lemma recruiting_keeps_subscribed:
  "x \<in> set (registered (events (editor s)) k') \<Longrightarrow> recruiting k new l d s = Inr s'
     \<Longrightarrow> x \<in> set (registered (events (editor s')) k')"
  by (auto simp add: recruiting_def quiet_def registered_events_subscribe split: if_splits)

lemma env_events_subscribe: "env (events_subscribe k l w) = env w"
  by (simp add: events_subscribe_def)

lemma env_world_of: "env (world_of em x) = x"
  by (simp add: world_of_def)

lemma env_assign_file: "env (assign_file p w) = env w"
  by (simp add: assign_file_def)

lemma env_world_with: "env (world_with em) = []"
  by (simp add: world_with_def)

lemma efile_assign_file: "efile (editor (assign_file p w)) = Some \<lparr>name = p\<rparr>"
  by (simp add: assign_file_def)

lemma notify_final_invariant:
  assumes "\<And>l s s'. P s \<Longrightarrow> upd l d s = Inr s' \<Longrightarrow> P s'" and "P w"
    and "snd (notify upd k d w) = Inr w'"
  shows "P w'"
  using assms(3) spec_final_invariant [of P upd d w, OF assms(1) assms(2)]
  by (simp add: snd_notify_spec)

lemma quiet_returned: "returned (quiet l d s)"
  by (simp add: quiet_def returned_def)

lemma recruiting_returned: "returned (recruiting k new l d s)"
  by (simp add: recruiting_def quiet_def returned_def)

lemma quiet_keeps_file:
  "efile (editor s) = v \<Longrightarrow> quiet l d s = Inr s' \<Longrightarrow> efile (editor s') = v"
  by (auto simp add: quiet_def)

lemma quiet_keeps_env_member:
  "x \<in> set (env s) \<Longrightarrow> quiet l d s = Inr s' \<Longrightarrow> x \<in> set (env s')"
  by (auto simp add: quiet_def)

text \<open>
  An exception ends the pass: with \<open>1\<close> and \<open>2\<close> subscribed and the \<open>update\<close> of \<open>1\<close>
  throwing, listener \<open>2\<close> is not called. This is why the statements below that say a
  listener is called speak of a pass that returns.
\<close>

lemma notify_stops_at_exception:
  "map callee (fst (notify failing ''save'' \<lparr>path = ''x.txt''\<rparr>
       (world_with (subscribe ''save'' 2 (subscribe ''save'' 1 new_EventManager))))) = [1]
   \<and> \<not> returned (snd (notify failing ''save'' \<lparr>path = ''x.txt''\<rparr>
       (world_with (subscribe ''save'' 2 (subscribe ''save'' 1 new_EventManager)))))"
  by (simp add: notify_def registered_simps failing_def returned_def)

subsection \<open>The claims on the registry\<close>

text \<open>
  Claim C4: \<open>notify(k, payload)\<close> dispatches to the sequence of \<open>k\<close> as it stood before the
  first call. Whatever the listeners do to the registry during the pass, the listeners
  called are an initial part of that sequence, in order, and the whole of it when no
  \<open>update\<close> throws; a listener that was not subscribed to \<open>k\<close> when the pass began is not
  called in it. Let a listener \<open>L1\<close> of the sequence subscribe a new listener \<open>L3\<close> to \<open>k\<close>
  during its \<open>update\<close> (after that \<open>update\<close>, \<open>L3\<close> is in the sequence of \<open>k\<close>), and let no
  \<open>update\<close> of the pass take \<open>L3\<close> out again. Then \<open>L3\<close> is not called in this pass, it is
  subscribed to \<open>k\<close> in the state the pass returns, and the next \<open>notify(k, ...)\<close> that
  returns calls it.
\<close>

theorem notify_dispatches_to_snapshot:
  "prefix (map callee (fst (notify upd k d w))) (registered (events (editor w)) k)
   \<and> (returned (snd (notify upd k d w)) \<longrightarrow>
        map callee (fst (notify upd k d w)) = registered (events (editor w)) k)
   \<and> (L3 \<notin> set (registered (events (editor w)) k) \<longrightarrow>
        L3 \<notin> callee ` set (fst (notify upd k d w)))
   \<and> (L1 \<in> set (registered (events (editor w)) k) \<longrightarrow>
        (\<forall>s s'. upd L1 d s = Inr s' \<longrightarrow> L3 \<in> set (registered (events (editor s')) k)) \<longrightarrow>
        (\<forall>l s s'. L3 \<in> set (registered (events (editor s)) k) \<longrightarrow> upd l d s = Inr s' \<longrightarrow>
            L3 \<in> set (registered (events (editor s')) k)) \<longrightarrow>
        L3 \<notin> set (registered (events (editor w)) k) \<longrightarrow>
        snd (notify upd k d w) = Inr w' \<longrightarrow>
        returned (snd (notify upd k d' w')) \<longrightarrow>
          L3 \<notin> callee ` set (fst (notify upd k d w))
          \<and> L3 \<in> set (registered (events (editor w')) k)
          \<and> L3 \<in> callee ` set (fst (notify upd k d' w')))"
proof -
  let ?P = "\<lambda>s. L3 \<in> set (registered (events (editor s)) k)"
  have c3: "L3 \<notin> callee ` set (fst (notify upd k d w))"
    if "L3 \<notin> set (registered (events (editor w)) k)"
    using that notify_callees_subset [of upd k d w] by auto
  have c4: "L3 \<notin> callee ` set (fst (notify upd k d w))
          \<and> L3 \<in> set (registered (events (editor w')) k)
          \<and> L3 \<in> callee ` set (fst (notify upd k d' w'))"
    if in1: "L1 \<in> set (registered (events (editor w)) k)"
      and make: "\<forall>s s'. upd L1 d s = Inr s' \<longrightarrow> ?P s'"
      and keep: "\<forall>l s s'. ?P s \<longrightarrow> upd l d s = Inr s' \<longrightarrow> ?P s'"
      and new: "L3 \<notin> set (registered (events (editor w)) k)"
      and first: "snd (notify upd k d w) = Inr w'"
      and second: "returned (snd (notify upd k d' w'))"
  proof -
    from first
    have run: "spec_updates_in_order upd (registered (events (editor w)) k) d w = Inr w'"
      by (simp add: snd_notify_spec)
    have sub: "?P w'"
    proof (rule spec_establishes [of ?P upd d L1, OF _ _ in1 run])
      show "?P s'" if "?P s" "upd l d s = Inr s'" for l s s'
        using keep that by blast
      show "?P s'" if "upd L1 d s = Inr s'" for s s'
        using make that by blast
    qed
    from notify_callees_returned [OF second] sub
    have "L3 \<in> callee ` set (fst (notify upd k d' w'))"
      by (metis set_map)
    with c3 [OF new] sub show ?thesis by (intro conjI)
  qed
  have c1: "prefix (map callee (fst (notify upd k d w))) (registered (events (editor w)) k)"
    by (rule notify_callees_prefix)
  have c2: "returned (snd (notify upd k d w)) \<longrightarrow>
        map callee (fst (notify upd k d w)) = registered (events (editor w)) k"
    by (intro impI) (rule notify_callees_returned)
  have c3': "L3 \<notin> set (registered (events (editor w)) k) \<longrightarrow>
        L3 \<notin> callee ` set (fst (notify upd k d w))"
    by (intro impI) (rule c3)
  have c4': "L1 \<in> set (registered (events (editor w)) k) \<longrightarrow>
        (\<forall>s s'. upd L1 d s = Inr s' \<longrightarrow> L3 \<in> set (registered (events (editor s')) k)) \<longrightarrow>
        (\<forall>l s s'. L3 \<in> set (registered (events (editor s)) k) \<longrightarrow> upd l d s = Inr s' \<longrightarrow>
            L3 \<in> set (registered (events (editor s')) k)) \<longrightarrow>
        L3 \<notin> set (registered (events (editor w)) k) \<longrightarrow>
        snd (notify upd k d w) = Inr w' \<longrightarrow>
        returned (snd (notify upd k d' w')) \<longrightarrow>
          L3 \<notin> callee ` set (fst (notify upd k d w))
          \<and> L3 \<in> set (registered (events (editor w')) k)
          \<and> L3 \<in> callee ` set (fst (notify upd k d' w'))"
    by (intro impI) (rule c4)
  from c1 c2 c3' c4' show ?thesis
    by (intro conjI)
qed

text \<open>
  The witness: the listeners \<open>1\<close> and \<open>2\<close> are subscribed to \<open>"save"\<close>, and the \<open>update\<close> of
  listener \<open>1\<close> subscribes listener \<open>3\<close> to \<open>"save"\<close>. The first pass calls \<open>1\<close> and \<open>2\<close> and
  leaves \<open>3\<close> subscribed; the second pass, run in the state the first one left, calls \<open>3\<close>.
\<close>

theorem notify_dispatches_to_snapshot_witness:
  "1 \<in> set (registered (events (editor
        (world_with (subscribe ''save'' 2 (subscribe ''save'' 1 new_EventManager))))) ''save'')
   \<and> 3 \<notin> set (registered (events (editor
        (world_with (subscribe ''save'' 2 (subscribe ''save'' 1 new_EventManager))))) ''save'')
   \<and> returned (snd (notify (recruiting ''save'' 3) ''save'' \<lparr>path = ''x.txt''\<rparr>
        (world_with (subscribe ''save'' 2 (subscribe ''save'' 1 new_EventManager)))))
   \<and> map callee (fst (notify (recruiting ''save'' 3) ''save'' \<lparr>path = ''x.txt''\<rparr>
        (world_with (subscribe ''save'' 2 (subscribe ''save'' 1 new_EventManager))))) = [1, 2]
   \<and> 3 \<notin> callee ` set (fst (notify (recruiting ''save'' 3) ''save'' \<lparr>path = ''x.txt''\<rparr>
        (world_with (subscribe ''save'' 2 (subscribe ''save'' 1 new_EventManager)))))
   \<and> 3 \<in> set (registered (events (editor
        (projr (snd (notify (recruiting ''save'' 3) ''save'' \<lparr>path = ''x.txt''\<rparr>
          (world_with (subscribe ''save'' 2 (subscribe ''save'' 1 new_EventManager)))))))) ''save'')
   \<and> 3 \<in> callee ` set (fst (notify (recruiting ''save'' 3) ''save'' \<lparr>path = ''y.txt''\<rparr>
        (projr (snd (notify (recruiting ''save'' 3) ''save'' \<lparr>path = ''x.txt''\<rparr>
          (world_with (subscribe ''save'' 2 (subscribe ''save'' 1 new_EventManager))))))))"
proof -
  let ?w = "world_with (subscribe ''save'' 2 (subscribe ''save'' 1 new_EventManager))"
  let ?n = "notify (recruiting ''save'' 3) ''save'' \<lparr>path = ''x.txt''\<rparr> ?w"
  have r: "registered (events (editor ?w)) ''save'' = [1, 2]"
    by (simp add: registered_simps)
  have i: "1 \<in> set (registered (events (editor ?w)) ''save'')"
    unfolding r by simp
  have a: "3 \<notin> set (registered (events (editor ?w)) ''save'')"
    unfolding r by simp
  have b: "returned (snd ?n)"
    unfolding notify_def by (rule dispatch_returned) (rule recruiting_returned)
  then have c: "snd ?n = Inr (projr (snd ?n))"
    by (auto simp add: returned_iff)
  have make: "\<forall>s s'. recruiting ''save'' 3 1 \<lparr>path = ''x.txt''\<rparr> s = Inr s'
      \<longrightarrow> 3 \<in> set (registered (events (editor s')) ''save'')"
    by (intro allI impI) (rule recruiting_subscribes)
  have keep: "\<forall>l s s'. 3 \<in> set (registered (events (editor s)) ''save'')
      \<longrightarrow> recruiting ''save'' 3 l \<lparr>path = ''x.txt''\<rparr> s = Inr s'
      \<longrightarrow> 3 \<in> set (registered (events (editor s')) ''save'')"
    by (intro allI impI) (rule recruiting_keeps_subscribed)
  have e: "returned (snd (notify (recruiting ''save'' 3) ''save'' \<lparr>path = ''y.txt''\<rparr>
             (projr (snd ?n))))"
    unfolding notify_def by (rule dispatch_returned) (rule recruiting_returned)
  note t = notify_dispatches_to_snapshot [where upd = "recruiting ''save'' 3" and k = "''save''"
      and d = "\<lparr>path = ''x.txt''\<rparr>" and d' = "\<lparr>path = ''y.txt''\<rparr>" and w = ?w
      and ?L1.0 = 1 and ?L3.0 = 3 and w' = "projr (snd ?n)"]
  have m: "map callee (fst ?n) = [1, 2]"
    using t [THEN conjunct2, THEN conjunct1, THEN mp, OF b] unfolding r .
  have f: "3 \<notin> callee ` set (fst ?n)"
    by (rule t [THEN conjunct2, THEN conjunct2, THEN conjunct1, THEN mp, OF a])
  note g = t [THEN conjunct2, THEN conjunct2, THEN conjunct2, THEN mp, OF i, THEN mp, OF make,
      THEN mp, OF keep, THEN mp, OF a, THEN mp, OF c, THEN mp, OF e]
  from i a b m f g [THEN conjunct2, THEN conjunct1] g [THEN conjunct2, THEN conjunct2]
  show ?thesis by (intro conjI)
qed

text \<open>
  Claim C5: after any sequence \<open>ls\<close> of subscribe calls to one key, \<open>notify\<close> on that key
  invokes the \<open>update\<close> of the subscribed listeners in subscription order. The listeners
  called are an initial part of the sequence the key had before, followed by \<open>ls\<close>. The
  outcome of the pass is the outcome of their updates applied in this order, and each call
  is made with the payload, in the state left by the updates of the listeners before it.
  When no \<open>update\<close> throws, every listener of the sequence is called, as many times as it
  occurs: one subscribed twice is called twice.
\<close>

theorem notify_in_subscription_order:
  "prefix (map callee (fst (notify upd k d (foldl (\<lambda>w l. events_subscribe k l w) w ls))))
     (registered (events (editor w)) k @ ls)
   \<and> snd (notify upd k d (foldl (\<lambda>w l. events_subscribe k l w) w ls))
       = spec_updates_in_order upd (registered (events (editor w)) k @ ls) d
           (foldl (\<lambda>w l. events_subscribe k l w) w ls)
   \<and> (\<forall>i. i < length (fst (notify upd k d (foldl (\<lambda>w l. events_subscribe k l w) w ls))) \<longrightarrow>
         callee (fst (notify upd k d (foldl (\<lambda>w l. events_subscribe k l w) w ls)) ! i)
           = (registered (events (editor w)) k @ ls) ! i
         \<and> payload (fst (notify upd k d (foldl (\<lambda>w l. events_subscribe k l w) w ls)) ! i) = d
         \<and> spec_updates_in_order upd (take i (registered (events (editor w)) k @ ls)) d
             (foldl (\<lambda>w l. events_subscribe k l w) w ls)
           = Inr (seen (fst (notify upd k d (foldl (\<lambda>w l. events_subscribe k l w) w ls)) ! i)))
   \<and> (returned (snd (notify upd k d (foldl (\<lambda>w l. events_subscribe k l w) w ls))) \<longrightarrow>
        map callee (fst (notify upd k d (foldl (\<lambda>w l. events_subscribe k l w) w ls)))
          = registered (events (editor w)) k @ ls
        \<and> (\<forall>l. count_list
                 (map callee (fst (notify upd k d (foldl (\<lambda>w l. events_subscribe k l w) w ls)))) l
               = count_list (registered (events (editor w)) k) l + count_list ls l))"
proof -
  let ?W = "foldl (\<lambda>w l. events_subscribe k l w) w ls"
  have r: "registered (events (editor ?W)) k = registered (events (editor w)) k @ ls"
    by (rule registered_events_subscribe_all)
  have c1: "prefix (map callee (fst (notify upd k d ?W))) (registered (events (editor w)) k @ ls)"
    using notify_callees_prefix [of upd k d ?W] unfolding r .
  have c2: "snd (notify upd k d ?W)
       = spec_updates_in_order upd (registered (events (editor w)) k @ ls) d ?W"
    using snd_notify_spec [of upd k d ?W] unfolding r .
  have c3: "\<forall>i. i < length (fst (notify upd k d ?W)) \<longrightarrow>
         callee (fst (notify upd k d ?W) ! i) = (registered (events (editor w)) k @ ls) ! i
         \<and> payload (fst (notify upd k d ?W) ! i) = d
         \<and> spec_updates_in_order upd (take i (registered (events (editor w)) k @ ls)) d ?W
           = Inr (seen (fst (notify upd k d ?W) ! i))"
    using notify_nth [of _ upd k d ?W] unfolding r by blast
  have c4: "returned (snd (notify upd k d ?W)) \<longrightarrow>
        map callee (fst (notify upd k d ?W)) = registered (events (editor w)) k @ ls
        \<and> (\<forall>l. count_list (map callee (fst (notify upd k d ?W))) l
               = count_list (registered (events (editor w)) k) l + count_list ls l)"
    using notify_callees_returned [of upd k d ?W] unfolding r by simp
  from c1 c2 c3 c4 show ?thesis
    by (intro conjI)
qed

text \<open>
  The witness: on a new event manager, subscribe \<open>1\<close>, \<open>2\<close> and \<open>1\<close> again to \<open>"save"\<close>, each
  listener recording its reference. The pass calls \<open>1\<close>, \<open>2\<close>, \<open>1\<close>, listener \<open>1\<close> twice; it
  leaves the record \<open>1, 2, 1\<close>, and the third call sees the record \<open>1, 2\<close>.
\<close>

theorem notify_in_subscription_order_witness:
  "returned (snd (notify recording ''save'' \<lparr>path = ''x.txt''\<rparr>
       (foldl (\<lambda>w l. events_subscribe ''save'' l w) (world_of new_EventManager []) [1, 2, 1])))
   \<and> map callee (fst (notify recording ''save'' \<lparr>path = ''x.txt''\<rparr>
       (foldl (\<lambda>w l. events_subscribe ''save'' l w) (world_of new_EventManager []) [1, 2, 1])))
       = [1, 2, 1]
   \<and> count_list (map callee (fst (notify recording ''save'' \<lparr>path = ''x.txt''\<rparr>
       (foldl (\<lambda>w l. events_subscribe ''save'' l w) (world_of new_EventManager []) [1, 2, 1])))) 1
       = 2
   \<and> env (projr (snd (notify recording ''save'' \<lparr>path = ''x.txt''\<rparr>
       (foldl (\<lambda>w l. events_subscribe ''save'' l w) (world_of new_EventManager []) [1, 2, 1]))))
       = [1, 2, 1]
   \<and> (2::nat) < length (fst (notify recording ''save'' \<lparr>path = ''x.txt''\<rparr>
       (foldl (\<lambda>w l. events_subscribe ''save'' l w) (world_of new_EventManager []) [1, 2, 1])))
   \<and> env (seen (fst (notify recording ''save'' \<lparr>path = ''x.txt''\<rparr>
       (foldl (\<lambda>w l. events_subscribe ''save'' l w) (world_of new_EventManager []) [1, 2, 1])) ! 2))
       = [1, 2]"
proof -
  let ?v = "world_of new_EventManager ([] :: Listener list)"
  let ?w = "foldl (\<lambda>w l. events_subscribe ''save'' l w) ?v [1, 2, 1]"
  let ?n = "notify recording ''save'' \<lparr>path = ''x.txt''\<rparr> ?w"
  have h: "returned (snd ?n)"
    unfolding notify_def by (rule dispatch_returned) (rule recording_returned)
  have r: "registered (events (editor ?v)) ''save'' = []"
    by (simp add: registered_world_of registered_new_EventManager)
  note t = notify_in_subscription_order [where upd = recording and k = "''save''"
        and d = "\<lparr>path = ''x.txt''\<rparr>" and w = ?v and ls = "[1, 2, 1]"]
  have m: "map callee (fst ?n) = [1, 2, 1]"
    using t [THEN conjunct2, THEN conjunct2, THEN conjunct2, THEN mp, OF h, THEN conjunct1]
    unfolding r by simp
  then have c: "count_list (map callee (fst ?n)) 1 = 2"
    by simp
  have "snd ?n = spec_updates_in_order recording [1, 2, 1] \<lparr>path = ''x.txt''\<rparr> ?w"
    using t [THEN conjunct2, THEN conjunct1] unfolding r by simp
  then have "snd ?n = Inr (?w\<lparr>env := [1, 2, 1]\<rparr>)"
    by (simp add: spec_updates_in_order_Cons spec_updates_in_order_Nil recording_def env_events_subscribe env_world_of)
  then have f: "env (projr (snd ?n)) = [1, 2, 1]"
    by simp
  have l: "(2::nat) < length (fst ?n)"
    using arg_cong [OF m, of length] by simp
  have "spec_updates_in_order recording (take 2 [1, 2, 1]) \<lparr>path = ''x.txt''\<rparr> ?w
      = Inr (seen (fst ?n ! 2))"
    using t [THEN conjunct2, THEN conjunct2, THEN conjunct1, THEN spec, THEN mp, OF l,
        THEN conjunct2, THEN conjunct2]
    unfolding r by simp
  then have "Inr (seen (fst ?n ! 2)) = Inr (?w\<lparr>env := [1, 2]\<rparr>)"
    by (simp add: spec_updates_in_order_Cons spec_updates_in_order_Nil recording_def env_events_subscribe env_world_of)
  then have s: "env (seen (fst ?n ! 2)) = [1, 2]"
    by simp
  from h m c f l s show ?thesis by (intro conjI)
qed

text \<open>
  Claim C7: \<open>unsubscribe\<close> with a key that has no subscribers, or with a listener that is
  not subscribed to the key, and \<open>notify\<close> with a key that has no subscribers raise no
  error and leave the sequence of every other key as it was. \<open>unsubscribe\<close> has no
  exception at all; it changes no other key, and it leaves the sequence of its own key as
  it was when the listener is not in it. \<open>notify\<close> on a key without subscribers calls
  nobody and returns the state unchanged.
\<close>

theorem unknown_key_or_listener_is_harmless:
  "(\<forall>k'. k' \<noteq> k \<longrightarrow> listeners (unsubscribe k l em) k' = listeners em k')
   \<and> (l \<notin> set (registered em k) \<longrightarrow> registered (unsubscribe k l em) k = registered em k)
   \<and> (registered (events (editor w)) k = [] \<longrightarrow> notify upd k d w = ([], Inr w))"
proof -
  have "\<forall>k'. k' \<noteq> k \<longrightarrow> listeners (unsubscribe k l em) k' = listeners em k'"
    by (simp add: unsubscribe_def Let_def)
  moreover have "registered (unsubscribe k l em) k = registered em k"
    if "l \<notin> set (registered em k)"
    using that by (auto simp add: registered_unsubscribe filter_id_conv)
  moreover have "notify upd k d w = ([], Inr w)" if "registered (events (editor w)) k = []"
    using that by (simp add: notify_def)
  ultimately show ?thesis by blast
qed

theorem unknown_key_or_listener_is_harmless_witness:
  "''save'' \<noteq> ''nope''
   \<and> listeners (unsubscribe ''nope'' 2 (subscribe ''save'' 1 new_EventManager)) ''save''
       = listeners (subscribe ''save'' 1 new_EventManager) ''save''
   \<and> 2 \<notin> set (registered (subscribe ''save'' 1 new_EventManager) ''nope'')
   \<and> registered (unsubscribe ''nope'' 2 (subscribe ''save'' 1 new_EventManager)) ''nope''
       = registered (subscribe ''save'' 1 new_EventManager) ''nope''
   \<and> registered (events (editor (world_with (subscribe ''save'' 1 new_EventManager)))) ''nope'' = []
   \<and> notify quiet ''nope'' \<lparr>path = ''x.txt''\<rparr> (world_with (subscribe ''save'' 1 new_EventManager))
       = ([], Inr (world_with (subscribe ''save'' 1 new_EventManager)))"
proof -
  let ?em = "subscribe ''save'' 1 new_EventManager"
  have a: "''save'' \<noteq> ''nope''" by simp
  have b: "2 \<notin> set (registered ?em ''nope'')"
    by (simp add: registered_simps)
  have c: "registered (events (editor (world_with ?em))) ''nope'' = []"
    by (simp add: registered_simps)
  note t = unknown_key_or_listener_is_harmless [where k = "''nope''" and l = 2 and em = ?em
      and w = "world_with ?em" and upd = quiet and d = "\<lparr>path = ''x.txt''\<rparr>"]
  have d: "listeners (unsubscribe ''nope'' 2 ?em) ''save'' = listeners ?em ''save''"
    by (rule t [THEN conjunct1, rule_format, OF a])
  have e: "registered (unsubscribe ''nope'' 2 ?em) ''nope'' = registered ?em ''nope''"
    by (rule t [THEN conjunct2, THEN conjunct1, rule_format, OF b])
  have f: "notify quiet ''nope'' \<lparr>path = ''x.txt''\<rparr> (world_with ?em) = ([], Inr (world_with ?em))"
    by (rule t [THEN conjunct2, THEN conjunct2, rule_format, OF c])
  from a d b e c f show ?thesis by (intro conjI)
qed

text \<open>
  Claim C10: \<open>unsubscribe(key, L)\<close> removes by reference. The new sequence of the key is the
  old one without every occurrence of the reference \<open>L\<close>, so \<open>L\<close> is no longer in it and a
  later \<open>notify\<close> on the key does not call it. Every other reference keeps all its
  occurrences, whatever its object looks like (the theorem holds for every \<open>update\<close>, hence
  also when two references behave alike), and a later \<open>notify\<close> on the key that returns
  calls it once per occurrence.
\<close>

theorem unsubscribe_removes_by_reference:
  "registered (unsubscribe k L em) k = filter (\<lambda>l. l \<noteq> L) (registered em k)
   \<and> L \<notin> set (registered (unsubscribe k L em) k)
   \<and> (\<forall>L'. L' \<noteq> L \<longrightarrow>
         count_list (registered (unsubscribe k L em) k) L' = count_list (registered em k) L')
   \<and> L \<notin> callee ` set (fst (notify upd k d (events_unsubscribe k L w)))
   \<and> (\<forall>L'. L' \<noteq> L \<longrightarrow> returned (snd (notify upd k d (events_unsubscribe k L w))) \<longrightarrow>
         count_list (map callee (fst (notify upd k d (events_unsubscribe k L w)))) L'
           = count_list (registered (events (editor w)) k) L')"
proof -
  have "L \<notin> callee ` set (fst (notify upd k d (events_unsubscribe k L w)))"
    using notify_callees_subset [of upd k d "events_unsubscribe k L w"]
    by (auto simp add: registered_events_unsubscribe)
  then show ?thesis
    using notify_callees_returned [of upd k d "events_unsubscribe k L w"]
    by (simp add: registered_unsubscribe registered_events_unsubscribe count_list_filter_neq)
qed

text \<open>
  The witness: \<open>1\<close>, \<open>2\<close>, \<open>1\<close> are subscribed to \<open>"save"\<close>, all with the same behaviour;
  after \<open>unsubscribe("save", 1)\<close> the pass still calls listener \<open>2\<close>, once.
\<close>

theorem unsubscribe_removes_by_reference_witness:
  "quiet 1 = quiet 2 \<and> (2::nat) \<noteq> 1
   \<and> returned (snd (notify quiet ''save'' \<lparr>path = ''x.txt''\<rparr>
        (events_unsubscribe ''save'' 1
          (foldl (\<lambda>w l. events_subscribe ''save'' l w) (world_with new_EventManager) [1, 2, 1]))))
   \<and> count_list (map callee (fst (notify quiet ''save'' \<lparr>path = ''x.txt''\<rparr>
        (events_unsubscribe ''save'' 1
          (foldl (\<lambda>w l. events_subscribe ''save'' l w) (world_with new_EventManager) [1, 2, 1]))))) 2
       = 1"
proof -
  let ?w = "foldl (\<lambda>w l. events_subscribe ''save'' l w) (world_with new_EventManager) [1, 2, 1]"
  let ?n = "notify quiet ''save'' \<lparr>path = ''x.txt''\<rparr> (events_unsubscribe ''save'' 1 ?w)"
  have s: "quiet 1 = quiet 2"
    by (rule ext)+ (simp add: quiet_def)
  have h: "returned (snd ?n)"
    unfolding notify_def by (rule dispatch_returned) (rule quiet_returned)
  have r: "registered (events (editor ?w)) ''save'' = [1, 2, 1]"
    by (simp add: registered_simps)
  have n: "(2::nat) \<noteq> 1" by simp
  note t = unsubscribe_removes_by_reference [where upd = quiet and k = "''save''" and L = 1
      and d = "\<lparr>path = ''x.txt''\<rparr>" and w = ?w]
  have "count_list (map callee (fst ?n)) 2 = count_list (registered (events (editor ?w)) ''save'') 2"
    by (rule t [THEN conjunct2, THEN conjunct2, THEN conjunct2, THEN conjunct2, rule_format,
          OF n h])
  then have "count_list (map callee (fst ?n)) 2 = 1"
    unfolding r by simp
  with s n h show ?thesis by (intro conjI)
qed

subsection \<open>The claim on the editor\<close>

text \<open>
  Claim C9: \<open>openFile\<close> and \<open>saveFile\<close> change the state first and call \<open>notify\<close> afterwards,
  with the name of the file as payload and the operation (\<open>"open"\<close>, \<open>"save"\<close>) as event
  type, so that a listener sees the state after the change. \<open>openFile\<close> is a pass for
  \<open>"open"\<close> started in the state where the file is assigned, in its calls and in its
  outcome: the outcome is the updates of the listeners applied to that state, every call
  carries the path, the first listener is called in exactly that state, and every property
  of that state which the listeners keep is seen by all of them and holds in the state
  returned. The same holds for \<open>saveFile\<close> and \<open>"save"\<close> in the state left by \<open>write\<close>, when
  a file is open and \<open>write\<close> returns. When no file is open or \<open>write\<close> throws, no listener
  is called and \<open>saveFile\<close> ends with the exception, a \<open>TypeError\<close> when no file is open.
\<close>

theorem publisher_notifies_after_mutation:
  "openFile upd p w = notify upd ''open'' p (assign_file p w)
   \<and> snd (openFile upd p w)
       = spec_updates_in_order upd (registered (events (editor w)) ''open'') p (assign_file p w)
   \<and> list_all (\<lambda>c. payload c = p) (fst (openFile upd p w))
   \<and> map seen (take 1 (fst (openFile upd p w)))
       = (if registered (events (editor w)) ''open'' = [] then [] else [assign_file p w])
   \<and> ((\<forall>l s s'. P s \<longrightarrow> upd l p s = Inr s' \<longrightarrow> P s')
        \<longrightarrow> P (assign_file p w)
        \<longrightarrow> list_all (\<lambda>c. P (seen c)) (fst (openFile upd p w))
            \<and> (\<forall>w'. snd (openFile upd p w) = Inr w' \<longrightarrow> P w'))
   \<and> (efile (editor w) = Some f \<longrightarrow> fwrite f (env w) = Inr x \<longrightarrow>
        saveFile upd fwrite w = notify upd ''save'' (name f) (w\<lparr>env := x\<rparr>)
        \<and> snd (saveFile upd fwrite w)
            = spec_updates_in_order upd (registered (events (editor w)) ''save'') (name f)
                (w\<lparr>env := x\<rparr>)
        \<and> list_all (\<lambda>c. payload c = name f) (fst (saveFile upd fwrite w))
        \<and> map seen (take 1 (fst (saveFile upd fwrite w)))
            = (if registered (events (editor w)) ''save'' = [] then [] else [w\<lparr>env := x\<rparr>])
        \<and> ((\<forall>l s s'. Q s \<longrightarrow> upd l (name f) s = Inr s' \<longrightarrow> Q s')
             \<longrightarrow> Q (w\<lparr>env := x\<rparr>)
             \<longrightarrow> list_all (\<lambda>c. Q (seen c)) (fst (saveFile upd fwrite w))
                 \<and> (\<forall>w'. snd (saveFile upd fwrite w) = Inr w' \<longrightarrow> Q w')))
   \<and> ((\<forall>g y. efile (editor w) = Some g \<longrightarrow> fwrite g (env w) \<noteq> Inr y)
        \<longrightarrow> fst (saveFile upd fwrite w) = [] \<and> \<not> returned (snd (saveFile upd fwrite w)))
   \<and> (efile (editor w) = None \<longrightarrow> saveFile upd fwrite w = ([], Inl TypeError))"
proof -
  have o: "openFile upd p w = notify upd ''open'' p (assign_file p w)"
    by (simp add: openFile_def Let_def assign_file_def)
  have o0: "snd (openFile upd p w)
       = spec_updates_in_order upd (registered (events (editor w)) ''open'') p (assign_file p w)"
    unfolding o snd_notify_spec registered_assign_file by (rule refl)
  have o1: "list_all (\<lambda>c. payload c = p) (fst (openFile upd p w))"
    unfolding o by (rule notify_all_payload)
  have o2: "map seen (take 1 (fst (openFile upd p w)))
       = (if registered (events (editor w)) ''open'' = [] then [] else [assign_file p w])"
    unfolding o notify_seen_first registered_assign_file by (rule refl)
  have o3: "(\<forall>l s s'. P s \<longrightarrow> upd l p s = Inr s' \<longrightarrow> P s')
        \<longrightarrow> P (assign_file p w)
        \<longrightarrow> list_all (\<lambda>c. P (seen c)) (fst (openFile upd p w))
            \<and> (\<forall>w'. snd (openFile upd p w) = Inr w' \<longrightarrow> P w')"
  proof (intro impI conjI allI)
    assume k: "\<forall>l s s'. P s \<longrightarrow> upd l p s = Inr s' \<longrightarrow> P s'" and i: "P (assign_file p w)"
    from k have k': "P s'" if "P s" "upd l p s = Inr s'" for l s s'
      using that by blast
    show "list_all (\<lambda>c. P (seen c)) (fst (openFile upd p w))"
      unfolding o using k' i by (rule notify_seen_invariant)
    show "P w'" if "snd (openFile upd p w) = Inr w'" for w'
      using k' i that unfolding o by (rule notify_final_invariant)
  qed
  have s: "efile (editor w) = Some f \<longrightarrow> fwrite f (env w) = Inr x \<longrightarrow>
        saveFile upd fwrite w = notify upd ''save'' (name f) (w\<lparr>env := x\<rparr>)
        \<and> snd (saveFile upd fwrite w)
            = spec_updates_in_order upd (registered (events (editor w)) ''save'') (name f)
                (w\<lparr>env := x\<rparr>)
        \<and> list_all (\<lambda>c. payload c = name f) (fst (saveFile upd fwrite w))
        \<and> map seen (take 1 (fst (saveFile upd fwrite w)))
            = (if registered (events (editor w)) ''save'' = [] then [] else [w\<lparr>env := x\<rparr>])
        \<and> ((\<forall>l s s'. Q s \<longrightarrow> upd l (name f) s = Inr s' \<longrightarrow> Q s')
             \<longrightarrow> Q (w\<lparr>env := x\<rparr>)
             \<longrightarrow> list_all (\<lambda>c. Q (seen c)) (fst (saveFile upd fwrite w))
                 \<and> (\<forall>w'. snd (saveFile upd fwrite w) = Inr w' \<longrightarrow> Q w'))"
  proof (intro impI)
    assume f: "efile (editor w) = Some f" and x: "fwrite f (env w) = Inr x"
    then have e: "saveFile upd fwrite w = notify upd ''save'' (name f) (w\<lparr>env := x\<rparr>)"
      by (simp add: saveFile_def)
    have s0: "snd (saveFile upd fwrite w)
            = spec_updates_in_order upd (registered (events (editor w)) ''save'') (name f)
                (w\<lparr>env := x\<rparr>)"
      unfolding e snd_notify_spec by simp
    have s1: "list_all (\<lambda>c. payload c = name f) (fst (saveFile upd fwrite w))"
      unfolding e by (rule notify_all_payload)
    have s2: "map seen (take 1 (fst (saveFile upd fwrite w)))
            = (if registered (events (editor w)) ''save'' = [] then [] else [w\<lparr>env := x\<rparr>])"
      unfolding e notify_seen_first by simp
    have s3: "(\<forall>l s s'. Q s \<longrightarrow> upd l (name f) s = Inr s' \<longrightarrow> Q s')
             \<longrightarrow> Q (w\<lparr>env := x\<rparr>)
             \<longrightarrow> list_all (\<lambda>c. Q (seen c)) (fst (saveFile upd fwrite w))
                 \<and> (\<forall>w'. snd (saveFile upd fwrite w) = Inr w' \<longrightarrow> Q w')"
    proof (intro impI conjI allI)
      assume k: "\<forall>l s s'. Q s \<longrightarrow> upd l (name f) s = Inr s' \<longrightarrow> Q s'"
        and i: "Q (w\<lparr>env := x\<rparr>)"
      from k have k': "Q s'" if "Q s" "upd l (name f) s = Inr s'" for l s s'
        using that by blast
      show "list_all (\<lambda>c. Q (seen c)) (fst (saveFile upd fwrite w))"
        unfolding e using k' i by (rule notify_seen_invariant)
      show "Q w'" if "snd (saveFile upd fwrite w) = Inr w'" for w'
        using k' i that unfolding e by (rule notify_final_invariant)
    qed
    from e s0 s1 s2 s3
    show "saveFile upd fwrite w = notify upd ''save'' (name f) (w\<lparr>env := x\<rparr>)
        \<and> snd (saveFile upd fwrite w)
            = spec_updates_in_order upd (registered (events (editor w)) ''save'') (name f)
                (w\<lparr>env := x\<rparr>)
        \<and> list_all (\<lambda>c. payload c = name f) (fst (saveFile upd fwrite w))
        \<and> map seen (take 1 (fst (saveFile upd fwrite w)))
            = (if registered (events (editor w)) ''save'' = [] then [] else [w\<lparr>env := x\<rparr>])
        \<and> ((\<forall>l s s'. Q s \<longrightarrow> upd l (name f) s = Inr s' \<longrightarrow> Q s')
             \<longrightarrow> Q (w\<lparr>env := x\<rparr>)
             \<longrightarrow> list_all (\<lambda>c. Q (seen c)) (fst (saveFile upd fwrite w))
                 \<and> (\<forall>w'. snd (saveFile upd fwrite w) = Inr w' \<longrightarrow> Q w'))"
      by (intro conjI)
  qed
  have n: "(\<forall>g y. efile (editor w) = Some g \<longrightarrow> fwrite g (env w) \<noteq> Inr y)
        \<longrightarrow> fst (saveFile upd fwrite w) = [] \<and> \<not> returned (snd (saveFile upd fwrite w))"
    by (auto simp add: saveFile_def returned_def split: option.splits sum.splits)
  have t: "efile (editor w) = None \<longrightarrow> saveFile upd fwrite w = ([], Inl TypeError)"
    by (simp add: saveFile_def)
  from o o0 o1 o2 o3 s n t show ?thesis
    by (intro conjI)
qed

text \<open>
  The witness: listener \<open>1\<close> is subscribed to \<open>"open"\<close> and listener \<open>2\<close> to \<open>"save"\<close>, as the
  application configures them. \<open>openFile\<close> returns a state with the file assigned, after
  its listener has seen the file. With \<open>x.txt\<close> open, the listener of \<open>saveFile\<close> is called
  in the state that holds the write, and the state returned holds the write and then the
  listener's line. \<open>saveFile\<close> with no file open calls nobody and ends with a \<open>TypeError\<close>.
\<close>

theorem publisher_notifies_after_mutation_witness:
  "efile (editor (assign_file \<lparr>path = ''x.txt''\<rparr>
       (world_with (subscribe ''save'' 2 (subscribe ''open'' 1 new_EventManager)))))
     = Some \<lparr>name = \<lparr>path = ''x.txt''\<rparr>\<rparr>
   \<and> log_write \<lparr>name = \<lparr>path = ''x.txt''\<rparr>\<rparr>
        (env (assign_file \<lparr>path = ''x.txt''\<rparr>
          (world_with (subscribe ''save'' 2 (subscribe ''open'' 1 new_EventManager)))))
       = Inr [''write x.txt'']
   \<and> map seen (take 1 (fst (saveFile quiet log_write
        (assign_file \<lparr>path = ''x.txt''\<rparr>
          (world_with (subscribe ''save'' 2 (subscribe ''open'' 1 new_EventManager)))))))
       = [(assign_file \<lparr>path = ''x.txt''\<rparr>
            (world_with (subscribe ''save'' 2 (subscribe ''open'' 1 new_EventManager))))
          \<lparr>env := [''write x.txt'']\<rparr>]
   \<and> list_all (\<lambda>c. ''write x.txt'' \<in> set (env (seen c)))
        (fst (saveFile quiet log_write
          (assign_file \<lparr>path = ''x.txt''\<rparr>
            (world_with (subscribe ''save'' 2 (subscribe ''open'' 1 new_EventManager))))))
   \<and> list_all (\<lambda>c. efile (editor (seen c)) = Some \<lparr>name = \<lparr>path = ''x.txt''\<rparr>\<rparr>)
        (fst (openFile quiet \<lparr>path = ''x.txt''\<rparr>
          (world_with (subscribe ''save'' 2 (subscribe ''open'' 1 new_EventManager)))))
   \<and> fst (saveFile quiet log_write
        (world_with (subscribe ''save'' 2 (subscribe ''open'' 1 new_EventManager)))) = []
   \<and> saveFile quiet log_write
        (world_with (subscribe ''save'' 2 (subscribe ''open'' 1 new_EventManager)))
       = ([], Inl TypeError)
   \<and> snd (openFile quiet \<lparr>path = ''x.txt''\<rparr>
        (world_with (subscribe ''save'' 2 (subscribe ''open'' 1 new_EventManager))))
       = Inr ((assign_file \<lparr>path = ''x.txt''\<rparr>
            (world_with (subscribe ''save'' 2 (subscribe ''open'' 1 new_EventManager))))
          \<lparr>env := [''x.txt'']\<rparr>)
   \<and> efile (editor (projr (snd (openFile quiet \<lparr>path = ''x.txt''\<rparr>
        (world_with (subscribe ''save'' 2 (subscribe ''open'' 1 new_EventManager)))))))
       = Some \<lparr>name = \<lparr>path = ''x.txt''\<rparr>\<rparr>
   \<and> snd (saveFile quiet log_write
        (assign_file \<lparr>path = ''x.txt''\<rparr>
          (world_with (subscribe ''save'' 2 (subscribe ''open'' 1 new_EventManager)))))
       = Inr ((assign_file \<lparr>path = ''x.txt''\<rparr>
            (world_with (subscribe ''save'' 2 (subscribe ''open'' 1 new_EventManager))))
          \<lparr>env := [''write x.txt'', ''x.txt'']\<rparr>)"
proof -
  let ?p = "\<lparr>path = ''x.txt''\<rparr>"
  let ?f = "\<lparr>name = ?p\<rparr>"
  let ?w0 = "world_with (subscribe ''save'' 2 (subscribe ''open'' 1 new_EventManager))"
  let ?w1 = "assign_file ?p ?w0"
  let ?P = "\<lambda>s :: string list world. efile (editor s) = Some ?f"
  let ?Q = "\<lambda>s :: string list world. ''write x.txt'' \<in> set (env s)"
  have a: "efile (editor ?w1) = Some ?f"
    by (rule efile_assign_file)
  have b: "log_write ?f (env ?w1) = Inr [''write x.txt'']"
    by (simp add: log_write_def env_assign_file env_world_with)
  have r: "registered (events (editor ?w1)) ''save'' = [2]"
    by (simp add: registered_simps)
  have ro: "registered (events (editor ?w0)) ''open'' = [1]"
    by (simp add: registered_simps)
  have kp: "\<forall>l s s'. ?P s \<longrightarrow> quiet l ?p s = Inr s' \<longrightarrow> ?P s'"
    by (intro allI impI) (rule quiet_keeps_file)
  have kq: "\<forall>l s s'. ?Q s \<longrightarrow> quiet l (name ?f) s = Inr s' \<longrightarrow> ?Q s'"
    by (intro allI impI) (rule quiet_keeps_env_member)
  have q1: "?Q (?w1\<lparr>env := [''write x.txt'']\<rparr>)"
    by simp
  have n: "\<forall>g y. efile (editor ?w0) = Some g \<longrightarrow> log_write g (env ?w0) \<noteq> Inr y"
    by (simp add: world_with_def)
  have none: "efile (editor ?w0) = None"
    by (simp add: world_with_def)
  note t1 = publisher_notifies_after_mutation [where upd = quiet and p = ?p and w = ?w1
      and fwrite = log_write and f = ?f and x = "[''write x.txt'']" and P = ?P and Q = ?Q]
  note t0 = publisher_notifies_after_mutation [where upd = quiet and p = ?p and w = ?w0
      and fwrite = log_write and f = ?f and x = "[''write x.txt'']" and P = ?P and Q = ?Q]
  note s = t1 [THEN conjunct2, THEN conjunct2, THEN conjunct2, THEN conjunct2, THEN conjunct2,
      THEN conjunct1, THEN mp, OF a, THEN mp, OF b]
  have c: "map seen (take 1 (fst (saveFile quiet log_write ?w1))) = [?w1\<lparr>env := [''write x.txt'']\<rparr>]"
    using s [THEN conjunct2, THEN conjunct2, THEN conjunct2, THEN conjunct1] unfolding r by simp
  have d: "list_all (\<lambda>c. ?Q (seen c)) (fst (saveFile quiet log_write ?w1))"
    by (rule s [THEN conjunct2, THEN conjunct2, THEN conjunct2, THEN conjunct2,
          THEN mp, OF kq, THEN mp, OF q1, THEN conjunct1])
  note op = t0 [THEN conjunct2, THEN conjunct2, THEN conjunct2, THEN conjunct2, THEN conjunct1,
          THEN mp, OF kp, THEN mp, OF a]
  have e: "list_all (\<lambda>c. ?P (seen c)) (fst (openFile quiet ?p ?w0))"
    by (rule op [THEN conjunct1])
  have f: "fst (saveFile quiet log_write ?w0) = []"
    by (rule t0 [THEN conjunct2, THEN conjunct2, THEN conjunct2, THEN conjunct2, THEN conjunct2,
          THEN conjunct2, THEN conjunct1, THEN mp, OF n, THEN conjunct1])
  have g: "saveFile quiet log_write ?w0 = ([], Inl TypeError)"
    by (rule t0 [THEN conjunct2, THEN conjunct2, THEN conjunct2, THEN conjunct2, THEN conjunct2,
          THEN conjunct2, THEN conjunct2, THEN mp, OF none])
  have h: "snd (openFile quiet ?p ?w0) = Inr (?w1\<lparr>env := [''x.txt'']\<rparr>)"
    using t0 [THEN conjunct2, THEN conjunct1] unfolding ro
    by (simp add: spec_updates_in_order_Cons spec_updates_in_order_Nil quiet_def
        env_assign_file env_world_with)
  have i: "efile (editor (projr (snd (openFile quiet ?p ?w0)))) = Some ?f"
  proof (rule op [THEN conjunct2, THEN spec, THEN mp])
    show "snd (openFile quiet ?p ?w0) = Inr (projr (snd (openFile quiet ?p ?w0)))"
      unfolding h by simp
  qed
  have j: "snd (saveFile quiet log_write ?w1) = Inr (?w1\<lparr>env := [''write x.txt'', ''x.txt'']\<rparr>)"
    using s [THEN conjunct2, THEN conjunct1] unfolding r
    by (simp add: spec_updates_in_order_Cons spec_updates_in_order_Nil quiet_def)
  from a b c d e f g h i j show ?thesis by (intro conjI)
qed

end
